theory Spec2Isabelle
  imports Main "HOL-Library.Word"
begin

section \<open>The record store of the soccer stats tracker (Soccer.cpp)\<close>

subsection \<open>Data model\<close>

text \<open>
  A C++ \<open>int\<close> is a 32-bit word, read as a signed number with \<open>sint\<close>. One element of
  \<open>vector<pair<string, int>>\<close> is a pair of a byte string and such a word.
\<close>

type_synonym cint = "32 word"

type_synonym player = "string \<times> cint"

definition INT_MAX :: int where
  "INT_MAX = 2147483647"

definition INT_MIN :: int where
  "INT_MIN = - 2147483648"

text \<open>
  The file named by \<open>filename_\<close>, as the stream constructors see it: its bytes when a file
  is there, whether it may be opened for reading, and whether it may be opened for writing
  (which creates the file when there is none).
\<close>

record medium =
  bytes :: "string option"
  readable :: bool
  writable :: bool

text \<open>The three messages on \<open>cerr\<close>, each followed by an early return.\<close>

datatype open_mode = Reading | Writing | Updating

datatype error = CouldNotOpen open_mode

text \<open>The two messages of \<open>updatePlayer\<close> on \<open>cout\<close>.\<close>

datatype outcome = Updated | Inserted

subsection \<open>Opening the file\<close>

text \<open>\<open>ifstream in(filename_)\<close>: the bytes to read, or failure.\<close>

definition open_in :: "medium \<Rightarrow> string option" where
  "open_in m = (case bytes m of
       None \<Rightarrow> None
     | Some b \<Rightarrow> if readable m then Some b else None)"

text \<open>\<open>ofstream out(filename_, ios::app)\<close>: the bytes already there, after which every write lands.\<close>

definition open_app :: "medium \<Rightarrow> string option" where
  "open_app m = (if writable m
     then Some (case bytes m of None \<Rightarrow> [] | Some b \<Rightarrow> b)
     else None)"

text \<open>\<open>fstream file(filename_, ios::in | ios::out)\<close>: needs an existing file; nothing is truncated.\<close>

definition open_inout :: "medium \<Rightarrow> string option" where
  "open_inout m = (case bytes m of
       None \<Rightarrow> None
     | Some b \<Rightarrow> if readable m \<and> writable m then Some b else None)"

text \<open>\<open>ofstream create(filename_)\<close>: creates or truncates; the file is empty after a successful open.\<close>

definition open_trunc :: "medium \<Rightarrow> string option" where
  "open_trunc m = (if writable m then Some [] else None)"

subsection \<open>Reading: \<open>getline\<close> and \<open>operator>>\<close>\<close>

definition newline :: char where
  "newline = CHR 0x0A"

definition comma :: char where
  "comma = CHR '',''"

text \<open>
  \<open>getline(is, str, delim)\<close> on the unread rest of a stream: it fails when no character can be
  extracted; otherwise it stores the characters before the first delimiter (or all of them)
  and discards the delimiter.
\<close>

fun getline :: "char \<Rightarrow> string \<Rightarrow> (string \<times> string) option" where
  "getline d [] = None"
| "getline d (c # cs) =
     Some (takeWhile (\<lambda>x. x \<noteq> d) (c # cs), drop 1 (dropWhile (\<lambda>x. x \<noteq> d) (c # cs)))"

definition isspace :: "char \<Rightarrow> bool" where
  "isspace c = (c \<in> set [CHR '' '', CHR 0x09, CHR 0x0A, CHR 0x0B, CHR 0x0C, CHR 0x0D])"

definition isdigit :: "char \<Rightarrow> bool" where
  "isdigit c = (c \<in> set ''0123456789'')"

definition digit_val :: "char \<Rightarrow> nat" where
  "digit_val c = of_char c - 48"

definition dec_value :: "string \<Rightarrow> nat" where
  "dec_value ds = foldl (\<lambda>a c. 10 * a + digit_val c) 0 ds"

text \<open>
  \<open>ss >> goals\<close> for an \<open>int\<close> that holds \<open>v0\<close>, on the unread rest \<open>s\<close> of the stream
  (C++11 \<open>num_get\<close>, decimal): leading white space is skipped; at the end of the stream the
  extraction fails before anything is stored, so the variable keeps \<open>v0\<close>; a field without a
  digit stores 0; a value out of range stores the nearest bound; the characters after the
  digits stay unread.
\<close>

definition extract_int :: "cint \<Rightarrow> string \<Rightarrow> cint" where
  "extract_int v0 s =
     (let s1 = dropWhile isspace s in
      if s1 = [] then v0
      else
        let neg = (hd s1 = CHR ''-'');
            s2 = (if hd s1 = CHR ''-'' \<or> hd s1 = CHR ''+'' then tl s1 else s1);
            ds = takeWhile isdigit s2
        in if ds = [] then 0
           else
             let v = (if neg then - int (dec_value ds) else int (dec_value ds))
             in if INT_MAX < v then word_of_int INT_MAX
                else if v < INT_MIN then word_of_int INT_MIN
                else word_of_int v)"

text \<open>
  The body of both reading loops for a line: \<open>stringstream ss(line); getline(ss, name, ',');
  ss >> goals;\<close> where \<open>goals\<close> is declared without an initial value and holds \<open>v0\<close>.
\<close>

definition parse_line :: "cint \<Rightarrow> string \<Rightarrow> player" where
  "parse_line v0 line = (case getline comma line of
       None \<Rightarrow> ([], v0)
     | Some (name, rest) \<Rightarrow> (name, extract_int v0 rest))"

text \<open>
  \<open>while (getline(file, line)) { if (line.empty()) continue; ... }\<close> on the unread bytes.
  Each pass declares \<open>int goals;\<close> anew, without an initial value: \<open>u i\<close> stands for
  what the variable of the \<open>i\<close>-th pass holds before \<open>ss >> goals\<close>. It shows in the
  result only where the extraction stores nothing.
\<close>

function read_records :: "(nat \<Rightarrow> cint) \<Rightarrow> nat \<Rightarrow> string \<Rightarrow> player list" where
  "read_records u i s = (case getline newline s of
       None \<Rightarrow> []
     | Some (line, rest) \<Rightarrow>
         if line = [] then read_records u (Suc i) rest
         else parse_line (u i) line # read_records u (Suc i) rest)"
  by pat_completeness auto
termination
proof (relation "measure (\<lambda>(u, i, s). length s)")
  show "wf (measure (\<lambda>(u, i, s). length s))" by simp
next
  fix u :: "nat \<Rightarrow> cint" and i :: nat and s x2 line rest
  assume "getline newline s = Some x2" and "(line, rest) = x2"
  then have "length rest < length s"
    using length_dropWhile_le [of "\<lambda>x. x \<noteq> newline" "tl s"]
    by (cases s) (auto split: if_splits)
  then show "((u, Suc i, rest), (u, i, s)) \<in> measure (\<lambda>(u, i, s). length s)" by simp
next
  fix u :: "nat \<Rightarrow> cint" and i :: nat and s x2 line rest
  assume "getline newline s = Some x2" and "(line, rest) = x2"
  then have "length rest < length s"
    using length_dropWhile_le [of "\<lambda>x. x \<noteq> newline" "tl s"]
    by (cases s) (auto split: if_splits)
  then show "((u, Suc i, rest), (u, i, s)) \<in> measure (\<lambda>(u, i, s). length s)" by simp
qed

subsection \<open>Writing: \<open>operator<<\<close>\<close>

definition digit_char :: "nat \<Rightarrow> char" where
  "digit_char d = ''0123456789'' ! d"

function digits :: "nat \<Rightarrow> string" where
  "digits n = (if n < 10 then [digit_char n] else digits (n div 10) @ [digit_char (n mod 10)])"
  by pat_completeness auto
termination
  by (relation "measure id") auto

text \<open>\<open>out << goals\<close>: decimal, with a minus sign for a negative number.\<close>

definition show_int :: "int \<Rightarrow> string" where
  "show_int i = (if i < 0 then CHR ''-'' # digits (nat (- i)) else digits (nat i))"

text \<open>\<open>out << name << "," << goals << "\n"\<close>\<close>

definition write_record :: "player \<Rightarrow> string" where
  "write_record p = fst p @ [comma] @ show_int (sint (snd p)) @ [newline]"

fun write_records :: "player list \<Rightarrow> string" where
  "write_records [] = []"
| "write_records (p # ps) = write_record p @ write_records ps"

text \<open>
  Writing \<open>new\<close> from position 0 into a file that holds \<open>old\<close> (\<open>seekp(0, ios::beg)\<close> and
  then \<open>operator<<\<close>): the bytes beyond the last one written stay.
\<close>

definition overwrite :: "string \<Rightarrow> string \<Rightarrow> string" where
  "overwrite new old = new @ drop (length new) old"

subsection \<open>The operations\<close>

definition displayPlayers :: "(nat \<Rightarrow> cint) \<Rightarrow> medium \<Rightarrow> medium \<times> (error + player list)" where
  "displayPlayers u m = (case open_in m of
       None \<Rightarrow> (m, Inl (CouldNotOpen Reading))
     | Some b \<Rightarrow> (m, Inr (read_records u 0 b)))"

definition addPlayer :: "medium \<Rightarrow> string \<Rightarrow> cint \<Rightarrow> medium \<times> (error + unit)" where
  "addPlayer m name goals = (case open_app m of
       None \<Rightarrow> (m, Inl (CouldNotOpen Writing))
     | Some b \<Rightarrow> (m\<lparr>bytes := Some (b @ write_record (name, goals))\<rparr>, Inr ()))"

text \<open>
  Step 2 of \<open>updatePlayer\<close>: the loop over the vector with the flag \<open>found\<close>, and the
  \<open>push_back\<close> when the flag is still false.
\<close>

fun scan_players :: "string \<Rightarrow> cint \<Rightarrow> player list \<Rightarrow> bool \<Rightarrow> player list \<times> bool" where
  "scan_players name newGoals [] found = ([], found)"
| "scan_players name newGoals (p # ps) found =
     (if fst p = name
      then (let (qs, f) = scan_players name newGoals ps True in ((fst p, newGoals) # qs, f))
      else (let (qs, f) = scan_players name newGoals ps found in (p # qs, f)))"

definition modify_players :: "string \<Rightarrow> cint \<Rightarrow> player list \<Rightarrow> player list \<times> outcome" where
  "modify_players name newGoals players =
     (let (qs, found) = scan_players name newGoals players False
      in if \<not> found then (qs @ [(name, newGoals)], Inserted) else (qs, Updated))"

definition updatePlayer ::
  "(nat \<Rightarrow> cint) \<Rightarrow> medium \<Rightarrow> string \<Rightarrow> cint \<Rightarrow> medium \<times> (error + outcome)" where
  "updatePlayer u m name newGoals = (case open_inout m of
       None \<Rightarrow> (m, Inl (CouldNotOpen Updating))
     | Some old \<Rightarrow>
         let players = read_records u 0 old;
             (final, res) = modify_players name newGoals players
         in (m\<lparr>bytes := Some (overwrite (write_records final) old)\<rparr>, Inr res))"

definition seed :: string where
  "seed = ''Messi,12\<newline>Rapinoe,9\<newline>Ronaldo,10\<newline>''"

definition ensureFileExists :: "medium \<Rightarrow> medium" where
  "ensureFileExists m = (case open_in m of
       Some b \<Rightarrow> m
     | None \<Rightarrow> (case open_trunc m of
           None \<Rightarrow> m
         | Some b \<Rightarrow> m\<lparr>bytes := Some (b @ seed)\<rparr>))"

text \<open>The constructor \<open>Soccer::Soccer\<close>.\<close>

definition Soccer :: "medium \<Rightarrow> medium" where
  "Soccer m = ensureFileExists m"

subsection \<open>Notions used to state the properties\<close>

text \<open>
  The lines of a file as the specification counts them: the text between two line breaks,
  and the text after the last line break when there is some.
\<close>

fun split_lines :: "string \<Rightarrow> string \<Rightarrow> string list" where
  "split_lines acc [] = (if acc = [] then [] else [rev acc])"
| "split_lines acc (c # cs) =
     (if c = newline then rev acc # split_lines [] cs else split_lines (c # acc) cs)"

definition file_lines :: "string \<Rightarrow> string list" where
  "file_lines s = split_lines [] s"

text \<open>Repeated \<open>addPlayer\<close>, one call for each record of a list, in order.\<close>

fun addPlayers :: "medium \<Rightarrow> player list \<Rightarrow> medium" where
  "addPlayers m [] = m"
| "addPlayers m (p # ps) = addPlayers (fst (addPlayer m (fst p) (snd p))) ps"

text \<open>The player lines that \<open>displayPlayers\<close> puts on \<open>cout\<close>: none after an error.\<close>

definition listed :: "medium \<times> (error + player list) \<Rightarrow> player list" where
  "listed r = (case snd r of Inl e \<Rightarrow> [] | Inr ps \<Rightarrow> ps)"

text \<open>
  The vector \<open>players\<close> when step 5 of \<open>updatePlayer\<close> starts, for a file that held \<open>old\<close>.
\<close>

definition rewritten :: "(nat \<Rightarrow> cint) \<Rightarrow> string \<Rightarrow> string \<Rightarrow> cint \<Rightarrow> player list" where
  "rewritten u old name newGoals = fst (modify_players name newGoals (read_records u 0 old))"

text \<open>One possible content of the uninitialised variables: zero in every pass.\<close>

definition zeroed :: "nat \<Rightarrow> cint" where
  "zeroed i = 0"

text \<open>A file that exists and may be read and written.\<close>

definition plain_file :: "string \<Rightarrow> medium" where
  "plain_file b = \<lparr>bytes = Some b, readable = True, writable = True\<rparr>"

declare digits.simps [simp del]

declare read_records.simps [simp del]

section \<open>Auxiliary facts\<close>

subsection \<open>Numbers written and read back\<close>

lemma digit_char_props:
  assumes "d < 10"
  shows "isdigit (digit_char d)" and "digit_val (digit_char d) = d"
proof -
  from assms have "d \<in> {0,1,2,3,4,5,6,7,8,9}" by auto
  then show "isdigit (digit_char d)"
    by (auto simp: isdigit_def digit_char_def)
  from \<open>d \<in> {0,1,2,3,4,5,6,7,8,9}\<close> show "digit_val (digit_char d) = d"
    by (auto simp: digit_val_def digit_char_def)
qed

lemma isdigit_plain:
  assumes "isdigit c"
  shows "c \<noteq> comma" "c \<noteq> newline" "\<not> isspace c" "c \<noteq> CHR ''-''" "c \<noteq> CHR ''+''"
  using assms by (auto simp: isdigit_def comma_def newline_def isspace_def)

lemma digits_nonempty: "digits n \<noteq> []"
  by (subst digits.simps) simp

lemma digits_isdigit: "c \<in> set (digits n) \<Longrightarrow> isdigit c"
proof (induction n arbitrary: c rule: digits.induct)
  case (1 n)
  show ?case
  proof (cases "n < 10")
    case True
    with "1.prems" show ?thesis
      by (subst (asm) digits.simps) (simp add: digit_char_props)
  next
    case False
    with "1.prems" have "c \<in> set (digits (n div 10)) \<or> c = digit_char (n mod 10)"
      by (subst (asm) digits.simps) auto
    then show ?thesis using "1.IH" [OF False] by (auto simp: digit_char_props)
  qed
qed

lemma dec_value_snoc: "dec_value (ds @ [c]) = 10 * dec_value ds + digit_val c"
  by (simp add: dec_value_def)

lemma dec_value_digits: "dec_value (digits n) = n"
proof (induction n rule: digits.induct)
  case (1 n)
  show ?case
  proof (cases "n < 10")
    case True
    then show ?thesis
      by (subst digits.simps) (simp add: dec_value_def digit_char_props)
  next
    case False
    then have "dec_value (digits n) = 10 * dec_value (digits (n div 10)) + digit_val (digit_char (n mod 10))"
      by (subst digits.simps) (simp add: dec_value_snoc)
    also have "\<dots> = 10 * (n div 10) + n mod 10"
      using "1.IH" [OF False] by (simp add: digit_char_props)
    finally show ?thesis by simp
  qed
qed

lemma takeWhile_isdigit_digits: "takeWhile isdigit (digits n) = digits n"
  by (simp add: digits_isdigit)

lemma extract_int_digits:
  "extract_int v0 (digits n) =
     (if INT_MAX < int n then word_of_int INT_MAX else word_of_int (int n))"
proof -
  have hd: "isdigit (hd (digits n))"
    using digits_nonempty [of n] digits_isdigit [of "hd (digits n)" n] by simp
  have "dropWhile isspace (digits n) = digits n"
    using hd digits_nonempty [of n] isdigit_plain(3) [OF hd] by (cases "digits n") auto
  moreover have "int n \<ge> INT_MIN" by (simp add: INT_MIN_def)
  ultimately show ?thesis
    using isdigit_plain(4,5) [OF hd] digits_nonempty [of n]
    by (simp add: extract_int_def Let_def takeWhile_isdigit_digits dec_value_digits)
qed

lemma extract_int_minus_digits:
  "extract_int v0 (CHR ''-'' # digits n) =
     (if - int n < INT_MIN then word_of_int INT_MIN else word_of_int (- int n))"
proof -
  have "\<not> isspace CHR ''-''" by (simp add: isspace_def)
  moreover have "\<not> INT_MAX < - int n" by (simp add: INT_MAX_def)
  ultimately show ?thesis
    using digits_nonempty [of n]
    by (simp add: extract_int_def Let_def takeWhile_isdigit_digits dec_value_digits)
qed

lemma extract_int_show_int: "extract_int v0 (show_int (sint g)) = g"
proof -
  have lo: "INT_MIN \<le> sint g" using sint_ge [of g] by (simp add: INT_MIN_def)
  have hi: "sint g \<le> INT_MAX" using sint_lt [of g] by (simp add: INT_MAX_def)
  show ?thesis
  proof (cases "sint g < 0")
    case True
    then have "extract_int v0 (show_int (sint g)) = word_of_int (- int (nat (- sint g)))"
      using lo by (simp add: show_int_def extract_int_minus_digits)
    also have "\<dots> = word_of_int (sint g)" using True by simp
    finally show ?thesis by simp
  next
    case False
    then have "extract_int v0 (show_int (sint g)) = word_of_int (int (nat (sint g)))"
      using hi by (simp add: show_int_def extract_int_digits)
    also have "\<dots> = word_of_int (sint g)" using False by simp
    finally show ?thesis by simp
  qed
qed

lemma show_int_plain: "c \<in> set (show_int i) \<Longrightarrow> c \<noteq> comma \<and> c \<noteq> newline"
proof -
  assume "c \<in> set (show_int i)"
  then have "c = CHR ''-'' \<or> isdigit c"
    by (auto simp: show_int_def dest: digits_isdigit split: if_splits)
  then show ?thesis
    by (auto simp: isdigit_def comma_def newline_def)
qed

lemma getline_append:
  assumes "d \<notin> set l"
  shows "getline d (l @ d # r) = Some (l, r)"
proof (cases l)
  case Nil
  then show ?thesis by simp
next
  case (Cons c cs)
  with assms have "takeWhile (\<lambda>x. x \<noteq> d) (c # cs @ d # r) = c # cs"
    and "dropWhile (\<lambda>x. x \<noteq> d) (c # cs @ d # r) = d # r"
    by (auto simp: takeWhile_append1 dropWhile_append3 takeWhile_tail dropWhile_append)
  with Cons show ?thesis by simp
qed

lemma getline_no_delim:
  assumes "d \<notin> set l" and "l \<noteq> []"
  shows "getline d l = Some (l, [])"
proof -
  from assms(1) have "takeWhile (\<lambda>x. x \<noteq> d) l = l" and "dropWhile (\<lambda>x. x \<noteq> d) l = []"
    by auto
  with assms(2) show ?thesis by (cases l) auto
qed

lemma parse_line_written:
  assumes "comma \<notin> set name"
  shows "parse_line v0 (name @ comma # show_int (sint g)) = (name, g)"
  using assms by (simp add: parse_line_def getline_append extract_int_show_int)

lemma read_records_written:
  assumes "comma \<notin> set (fst p)" and "newline \<notin> set (fst p)"
  shows "read_records u i (write_record p @ rest) = p # read_records u (Suc i) rest"
proof -
  let ?l = "fst p @ comma # show_int (sint (snd p))"
  have nl: "newline \<notin> set ?l"
    using assms(2) show_int_plain [of newline "sint (snd p)"] by (auto simp: comma_def newline_def)
  have w: "write_record p @ rest = ?l @ newline # rest"
    by (simp add: write_record_def)
  have "getline newline (write_record p @ rest) = Some (?l, rest)"
    unfolding w by (rule getline_append [OF nl])
  then show ?thesis
    using parse_line_written [OF assms(1), of "u i" "snd p"]
    by (subst read_records.simps) simp
qed

lemma read_records_write_records:
  assumes "\<forall>p \<in> set ps. comma \<notin> set (fst p) \<and> newline \<notin> set (fst p)"
  shows "read_records u i (write_records ps @ rest) = ps @ read_records u (i + length ps) rest"
  using assms
proof (induction ps arbitrary: i)
  case Nil
  then show ?case by simp
next
  case (Cons p ps)
  then have "read_records u i (write_records (p # ps) @ rest)
      = p # read_records u (Suc i) (write_records ps @ rest)"
    by (simp add: read_records_written)
  with Cons show ?case by simp
qed

lemma read_records_Nil: "read_records u i [] = []"
  by (subst read_records.simps) simp


lemma getline_split:
  assumes "getline d s = Some (l, r)"
  shows "d \<notin> set l" and "l = takeWhile (\<lambda>x. x \<noteq> d) s" and "set l \<subseteq> set s" and "set r \<subseteq> set s"
proof -
  from assms obtain c cs where s: "s = c # cs" by (cases s) auto
  with assms have l: "l = takeWhile (\<lambda>x. x \<noteq> d) s"
    and r: "r = drop 1 (dropWhile (\<lambda>x. x \<noteq> d) s)" by auto
  show "l = takeWhile (\<lambda>x. x \<noteq> d) s" by (rule l)
  show "d \<notin> set l" unfolding l by (auto dest: set_takeWhileD)
  show "set l \<subseteq> set s" unfolding l by (auto dest: set_takeWhileD)
  have "set r \<subseteq> set (dropWhile (\<lambda>x. x \<noteq> d) s)"
    unfolding r by (rule set_drop_subset)
  also have "\<dots> \<subseteq> set s" by (auto dest: set_dropWhileD)
  finally show "set r \<subseteq> set s" .
qed

lemma parse_line_name:
  assumes "newline \<notin> set line"
  shows "comma \<notin> set (fst (parse_line v0 line)) \<and> newline \<notin> set (fst (parse_line v0 line))"
proof (cases "getline comma line")
  case None
  then show ?thesis by (simp add: parse_line_def)
next
  case (Some a)
  obtain l r where a: "a = (l, r)" by (cases a)
  from Some a getline_split(1,3) [of comma line l r] assms show ?thesis
    by (auto simp: parse_line_def)
qed

lemma read_records_names:
  "p \<in> set (read_records u i s) \<Longrightarrow> comma \<notin> set (fst p) \<and> newline \<notin> set (fst p)"
proof (induction u i s rule: read_records.induct)
  case (1 u i s)
  show ?case
  proof (cases "getline newline s")
    case None
    with "1.prems" show ?thesis by (subst (asm) read_records.simps) simp
  next
    case (Some a)
    obtain line rest where a: "a = (line, rest)" by (cases a)
    have nl: "newline \<notin> set line" using Some a getline_split(1) by fastforce
    show ?thesis
    proof (cases "line = []")
      case True
      with "1.prems" Some a have "p \<in> set (read_records u (Suc i) rest)"
        by (subst (asm) read_records.simps) simp
      with "1.IH"(1) [OF Some a [symmetric] True] show ?thesis
        by simp
    next
      case False
      with "1.prems" Some a
      have "p = parse_line (u i) line \<or> p \<in> set (read_records u (Suc i) rest)"
        by (subst (asm) read_records.simps) auto
      with "1.IH"(2) [OF Some a [symmetric] False] parse_line_name [OF nl] show ?thesis
        by auto
    qed
  qed
qed


lemma read_records_line:
  assumes "newline \<notin> set l"
  shows "read_records u i (l @ newline # rest) =
     (if l = [] then read_records u (Suc i) rest
      else parse_line (u i) l # read_records u (Suc i) rest)"
  using getline_append [OF assms, of rest] by (subst read_records.simps) simp

lemma read_records_last_line:
  assumes "newline \<notin> set l" and "l \<noteq> []"
  shows "read_records u i l = [parse_line (u i) l]"
  using getline_no_delim [OF assms] assms(2)
  by (subst read_records.simps) (simp add: read_records_Nil)

lemma read_records_append:
  assumes "s = [] \<or> last s = newline" and "\<And>v j. read_records v j t = r"
  shows "read_records u i (s @ t) = read_records u i s @ r"
  using assms(1)
proof (induction s arbitrary: i rule: length_induct)
  case (1 s)
  show ?case
  proof (cases "s = []")
    case True
    then show ?thesis by (simp add: assms(2) read_records_Nil)
  next
    case False
    with "1.prems" have "newline \<in> set s"
      using last_in_set [of s] by auto
    then obtain l rest where s: "s = l @ newline # rest" and l: "newline \<notin> set l"
      by (auto dest: split_list_first)
    have rest: "rest = [] \<or> last rest = newline"
      using "1.prems" False s by (cases "rest = []") auto
    have "length rest < length s" using s by simp
    with "1.IH" rest have ih: "\<And>j. read_records u j (rest @ t) = read_records u j rest @ r"
      by blast
    have "read_records u i (s @ t) = read_records u i (l @ newline # (rest @ t))"
      using s by simp
    then show ?thesis
      using s by (simp add: read_records_line [OF l] ih)
  qed
qed

lemma split_lines_getline:
  assumes "newline \<notin> set acc"
  shows "split_lines acc s = (case getline newline (rev acc @ s) of
       None \<Rightarrow> []
     | Some (l, rest) \<Rightarrow> l # split_lines [] rest)"
  using assms
proof (induction s arbitrary: acc)
  case Nil
  show ?case
  proof (cases "acc = []")
    case True
    then show ?thesis by simp
  next
    case False
    with Nil have "getline newline (rev acc) = Some (rev acc, [])"
      by (intro getline_no_delim) auto
    with False show ?thesis by simp
  qed
next
  case (Cons c cs)
  show ?case
  proof (cases "c = newline")
    case True
    have "getline newline (rev acc @ newline # cs) = Some (rev acc, cs)"
      using Cons.prems by (intro getline_append) auto
    with True show ?thesis by simp
  next
    case False
    with Cons.prems have "newline \<notin> set (c # acc)" by simp
    from Cons.IH [OF this] False show ?thesis by simp
  qed
qed

lemma read_records_file_lines:
  "read_records u i s =
     map (\<lambda>(j, l). parse_line (u j) l) (filter (\<lambda>(j, l). l \<noteq> []) (enumerate i (file_lines s)))"
proof (induction u i s rule: read_records.induct)
  case (1 u i s)
  have fl: "file_lines s = (case getline newline s of
       None \<Rightarrow> [] | Some (l, rest) \<Rightarrow> l # file_lines rest)"
    unfolding file_lines_def using split_lines_getline [of "[]" s] by simp
  show ?case
  proof (cases "getline newline s")
    case None
    then show ?thesis by (subst read_records.simps) (simp add: fl)
  next
    case (Some a)
    obtain line rest where a: "a = (line, rest)" by (cases a)
    show ?thesis
    proof (cases "line = []")
      case True
      from "1.IH"(1) [OF Some a [symmetric] True] Some a True show ?thesis
        by (subst read_records.simps) (simp add: fl)
    next
      case False
      from "1.IH"(2) [OF Some a [symmetric] False] Some a False show ?thesis
        by (subst read_records.simps) (simp add: fl)
    qed
  qed
qed

lemma scan_players_eq:
  "scan_players name g ps found =
     (map (\<lambda>p. if fst p = name then (fst p, g) else p) ps, found \<or> name \<in> fst ` set ps)"
  by (induction ps arbitrary: found) auto

lemma modify_players_eq:
  "modify_players name g ps =
     (if name \<in> fst ` set ps
      then (map (\<lambda>p. if fst p = name then (fst p, g) else p) ps, Updated)
      else (ps @ [(name, g)], Inserted))"
proof -
  have "name \<notin> fst ` set ps \<Longrightarrow> map (\<lambda>p. if fst p = name then (fst p, g) else p) ps = ps"
    by (induction ps) auto
  then show ?thesis
    by (auto simp: modify_players_def scan_players_eq)
qed

subsection \<open>Evaluation and the constructor\<close>

lemmas run_defs = parse_line_def extract_int_def isspace_def isdigit_def dec_value_def
  digit_val_def newline_def comma_def INT_MAX_def INT_MIN_def read_records.simps

lemma seed_records:
  "read_records u i seed = [(''Messi'', 12), (''Rapinoe'', 9), (''Ronaldo'', 10)]"
  by (simp add: seed_def run_defs)

lemma ensureFileExists_twice: "ensureFileExists (ensureFileExists m) = ensureFileExists m"
proof (cases "open_in m")
  case (Some b)
  then show ?thesis by (simp add: ensureFileExists_def)
next
  case None
  show ?thesis
  proof (cases "writable m")
    case False
    with None show ?thesis by (simp add: ensureFileExists_def open_trunc_def)
  next
    case True
    with None have "ensureFileExists m = m\<lparr>bytes := Some seed\<rparr>"
      by (simp add: ensureFileExists_def open_trunc_def)
    moreover have "ensureFileExists (m\<lparr>bytes := Some seed\<rparr>) = m\<lparr>bytes := Some seed\<rparr>"
      using True by (simp add: ensureFileExists_def open_trunc_def open_in_def)
    ultimately show ?thesis by simp
  qed
qed

subsection \<open>The update\<close>

lemmas write_defs = write_record_def show_int_def digit_char_def digits.simps overwrite_def

lemma updatePlayer_opened:
  assumes "open_inout m = Some old"
  shows "updatePlayer u m name g =
     (m\<lparr>bytes := Some (overwrite (write_records (rewritten u old name g)) old)\<rparr>,
      Inr (snd (modify_players name g (read_records u 0 old))))"
  using assms by (simp add: updatePlayer_def rewritten_def split: prod.splits)

lemma rewritten_eq:
  "rewritten u old name g =
     (if name \<in> fst ` set (read_records u 0 old)
      then map (\<lambda>p. if fst p = name then (fst p, g) else p) (read_records u 0 old)
      else read_records u 0 old @ [(name, g)])"
  by (simp add: rewritten_def modify_players_eq)

lemma map_update_filter:
  "filter (\<lambda>p. fst p \<noteq> name) (map (\<lambda>p. if fst p = name then (fst p, g) else p) ps)
     = filter (\<lambda>p. fst p \<noteq> name) ps"
  by (induction ps) auto

lemma map_update_names:
  "map fst (map (\<lambda>p. if fst p = name then (fst p, g) else p) ps) = map fst ps"
  by (induction ps) auto

subsection \<open>Appending and reading back\<close>

lemma overwrite_covers: "length old \<le> length new \<Longrightarrow> overwrite new old = new"
  by (simp add: overwrite_def)

lemma read_records_written_back:
  assumes "\<forall>p \<in> set ps. comma \<notin> set (fst p) \<and> newline \<notin> set (fst p)"
  shows "read_records u i (write_records ps) = ps"
  using read_records_write_records [OF assms, of u i "[]"] by (simp add: read_records_Nil)

lemma addPlayer_opened:
  assumes "open_in m = Some b" and "writable m"
  shows "fst (addPlayer m name g) = m\<lparr>bytes := Some (b @ write_record (name, g))\<rparr>"
  using assms by (auto simp: addPlayer_def open_app_def open_in_def split: option.splits if_splits)

lemma addPlayers_opened:
  assumes "open_in m = Some b" and "writable m"
  shows "addPlayers m ps = m\<lparr>bytes := Some (b @ write_records ps)\<rparr>"
  using assms
proof (induction ps arbitrary: m b)
  case Nil
  then have "bytes m = Some b" by (auto simp: open_in_def split: option.splits if_splits)
  then show ?case by simp
next
  case (Cons p ps)
  let ?m = "m\<lparr>bytes := Some (b @ write_record p)\<rparr>"
  from Cons.prems have r: "readable m"
    by (auto simp: open_in_def split: option.splits if_splits)
  have step: "fst (addPlayer m (fst p) (snd p)) = ?m"
    using addPlayer_opened [OF Cons.prems] by simp
  have "open_in ?m = Some (b @ write_record p)" and "writable ?m"
    using r Cons.prems(2) by (simp_all add: open_in_def)
  from Cons.IH [OF this] step show ?case by simp
qed

lemma displayPlayers_appended:
  assumes "open_in m = Some b" and "b = [] \<or> last b = newline"
    and "\<forall>p \<in> set ps. comma \<notin> set (fst p) \<and> newline \<notin> set (fst p)"
  shows "displayPlayers u (m\<lparr>bytes := Some (b @ write_records ps)\<rparr>)
     = (m\<lparr>bytes := Some (b @ write_records ps)\<rparr>, Inr (read_records u 0 b @ ps))"
proof -
  from assms(1) have "readable m"
    by (auto simp: open_in_def split: option.splits if_splits)
  then have "open_in (m\<lparr>bytes := Some (b @ write_records ps)\<rparr>) = Some (b @ write_records ps)"
    by (simp add: open_in_def)
  moreover have "read_records u 0 (b @ write_records ps) = read_records u 0 b @ ps"
    by (rule read_records_append [OF assms(2)]) (rule read_records_written_back [OF assms(3)])
  ultimately show ?thesis by (simp add: displayPlayers_def)
qed

lemma rewritten_names:
  assumes "p \<in> set (rewritten u old name g)"
    and "name \<in> fst ` set (read_records u 0 old) \<or> (comma \<notin> set name \<and> newline \<notin> set name)"
  shows "comma \<notin> set (fst p) \<and> newline \<notin> set (fst p)"
proof -
  have ps: "\<And>q. q \<in> set (read_records u 0 old) \<Longrightarrow> comma \<notin> set (fst q) \<and> newline \<notin> set (fst q)"
    by (rule read_records_names)
  show ?thesis
  proof (cases "name \<in> fst ` set (read_records u 0 old)")
    case True
    then have "map fst (rewritten u old name g) = map fst (read_records u 0 old)"
      by (simp add: rewritten_eq map_update_names)
    moreover from assms(1) have "fst p \<in> set (map fst (rewritten u old name g))"
      by simp
    ultimately have "fst p \<in> fst ` set (read_records u 0 old)" by simp
    with ps show ?thesis by auto
  next
    case False
    with assms show ?thesis by (auto simp: rewritten_eq dest: ps)
  qed
qed

lemma updatePlayer_listed:
  assumes "open_inout m = Some old"
    and "name \<in> fst ` set (read_records u 0 old) \<or> (comma \<notin> set name \<and> newline \<notin> set name)"
    and "length old \<le> length (write_records (rewritten u old name g))"
  shows "snd (displayPlayers v (fst (updatePlayer u m name g))) = Inr (rewritten u old name g)"
proof -
  let ?new = "write_records (rewritten u old name g)"
  have rd: "readable m"
    using assms(1) by (auto simp: open_inout_def split: option.splits if_splits)
  have wf: "\<forall>p \<in> set (rewritten u old name g). comma \<notin> set (fst p) \<and> newline \<notin> set (fst p)"
    using rewritten_names [OF _ assms(2)] by blast
  have "open_in (m\<lparr>bytes := Some (overwrite ?new old)\<rparr>) = Some ?new"
    using rd by (simp add: open_in_def overwrite_covers [OF assms(3)])
  then show ?thesis
    by (simp add: updatePlayer_opened [OF assms(1)] displayPlayers_def
        read_records_written_back [OF wf])
qed

subsection \<open>The sequence that is written back\<close>

text \<open>
  Step 2 of \<open>updatePlayer\<close> on the vector: every element with the target name gets the new
  goals, and nothing is pushed when one matched. A later listing shows this vector when the
  text written is at least as long as the old file.
\<close>

lemma rewritten_updates_every_match:
  assumes "open_inout m = Some old"
  shows "fst (updatePlayer u m name g)
       = m\<lparr>bytes := Some (overwrite (write_records (rewritten u old name g)) old)\<rparr>
   \<and> (\<forall>i < length (read_records u 0 old).
        fst (read_records u 0 old ! i) = name \<longrightarrow> rewritten u old name g ! i = (name, g))
   \<and> (\<forall>p \<in> set (rewritten u old name g). fst p = name \<longrightarrow> snd p = g)
   \<and> (name \<in> fst ` set (read_records u 0 old) \<longrightarrow>
        length (rewritten u old name g) = length (read_records u 0 old)
        \<and> snd (updatePlayer u m name g) = Inr Updated)
   \<and> (name \<in> fst ` set (read_records u 0 old)
        \<and> length old \<le> length (write_records (rewritten u old name g)) \<longrightarrow>
        snd (displayPlayers v (fst (updatePlayer u m name g))) = Inr (rewritten u old name g))"
proof -
  let ?ps = "read_records u 0 old"
  have a: "fst (updatePlayer u m name g)
       = m\<lparr>bytes := Some (overwrite (write_records (rewritten u old name g)) old)\<rparr>"
    by (simp add: updatePlayer_opened [OF assms])
  have b: "\<forall>i < length ?ps. fst (?ps ! i) = name \<longrightarrow> rewritten u old name g ! i = (name, g)"
  proof (intro allI impI)
    fix i assume i: "i < length ?ps" and n: "fst (?ps ! i) = name"
    then have "name \<in> fst ` set ?ps" by (metis image_eqI nth_mem)
    with i n show "rewritten u old name g ! i = (name, g)"
      by (simp add: rewritten_eq)
  qed
  have c: "\<forall>p \<in> set (rewritten u old name g). fst p = name \<longrightarrow> snd p = g"
    by (auto simp: rewritten_eq split: if_splits)
  have d: "name \<in> fst ` set ?ps \<longrightarrow>
        length (rewritten u old name g) = length ?ps \<and> snd (updatePlayer u m name g) = Inr Updated"
    by (simp add: rewritten_eq updatePlayer_opened [OF assms] modify_players_eq)
  have e: "name \<in> fst ` set ?ps \<and> length old \<le> length (write_records (rewritten u old name g)) \<longrightarrow>
        snd (displayPlayers v (fst (updatePlayer u m name g))) = Inr (rewritten u old name g)"
    using updatePlayer_listed [OF assms, of name u g v] by blast
  from a b c d e show ?thesis by blast
qed

text \<open>
  Step 2 leaves the elements with another name as they are, keeps the order, and pushes at
  most one element, at the end.
\<close>

lemma rewritten_frame:
  assumes "open_inout m = Some old"
  shows "fst (updatePlayer u m name g)
       = m\<lparr>bytes := Some (overwrite (write_records (rewritten u old name g)) old)\<rparr>
   \<and> (\<forall>i < length (read_records u 0 old).
        fst (read_records u 0 old ! i) \<noteq> name \<longrightarrow>
        rewritten u old name g ! i = read_records u 0 old ! i)
   \<and> map fst (take (length (read_records u 0 old)) (rewritten u old name g))
       = map fst (read_records u 0 old)
   \<and> filter (\<lambda>p. fst p \<noteq> name) (rewritten u old name g)
       = filter (\<lambda>p. fst p \<noteq> name) (read_records u 0 old)
   \<and> rewritten u old name g
       = take (length (read_records u 0 old)) (rewritten u old name g)
         @ (if name \<in> fst ` set (read_records u 0 old) then [] else [(name, g)])"
proof -
  let ?ps = "read_records u 0 old"
  have a: "fst (updatePlayer u m name g)
       = m\<lparr>bytes := Some (overwrite (write_records (rewritten u old name g)) old)\<rparr>"
    by (simp add: updatePlayer_opened [OF assms])
  have b: "\<forall>i < length ?ps. fst (?ps ! i) \<noteq> name \<longrightarrow> rewritten u old name g ! i = ?ps ! i"
    by (simp add: rewritten_eq nth_append)
  have c: "map fst (take (length ?ps) (rewritten u old name g)) = map fst ?ps"
    by (simp add: rewritten_eq map_update_names)
  have d: "filter (\<lambda>p. fst p \<noteq> name) (rewritten u old name g) = filter (\<lambda>p. fst p \<noteq> name) ?ps"
    by (simp add: rewritten_eq map_update_filter)
  have e: "rewritten u old name g = take (length ?ps) (rewritten u old name g)
         @ (if name \<in> fst ` set ?ps then [] else [(name, g)])"
    by (simp add: rewritten_eq)
  from a b c d e show ?thesis by blast
qed

subsection \<open>Lines and fields\<close>

lemma parse_line_fst: "fst (parse_line v0 line) = takeWhile (\<lambda>c. c \<noteq> comma) line"
  by (cases line) (simp_all add: parse_line_def)

lemma parsed_names:
  "map fst (map (\<lambda>(j, l). parse_line (u j) l) (filter (\<lambda>(j, l). l \<noteq> []) (enumerate i xs)))
     = map (takeWhile (\<lambda>c. c \<noteq> comma)) (filter (\<lambda>l. l \<noteq> []) xs)"
  by (induction xs arbitrary: i) (auto simp: parse_line_fst)

lemma read_records_fst:
  "map fst (read_records u i s)
     = map (takeWhile (\<lambda>c. c \<noteq> comma)) (filter (\<lambda>l. l \<noteq> []) (file_lines s))"
  by (simp only: read_records_file_lines parsed_names)

lemma read_records_length:
  "length (read_records u i s) = length (filter (\<lambda>l. l \<noteq> []) (file_lines s))"
  using arg_cong [OF read_records_fst [of u i s], of length] by simp

lemma sint_word_of_nat_small:
  assumes "int n \<le> INT_MAX"
  shows "sint (word_of_nat n :: cint) = int n"
proof -
  have "sint (word_of_int (int n) :: cint) = int n"
    using assms
    by (simp add: sint_sbintrunc' signed_take_bit_int_eq_self INT_MAX_def del: of_int_of_nat_eq)
  then show ?thesis by simp
qed

lemma extract_int_leading_digits:
  assumes "ds \<noteq> []" and "\<forall>c \<in> set ds. isdigit c" and "rest = [] \<or> \<not> isdigit (hd rest)"
  shows "extract_int v0 (ds @ rest) =
     (if INT_MAX < int (dec_value ds) then word_of_int INT_MAX else word_of_int (int (dec_value ds)))"
proof -
  from assms(1) obtain d ds' where ds: "ds = d # ds'" by (cases ds) auto
  with assms(2) have d: "isdigit d" and ds': "\<forall>c \<in> set ds'. isdigit c" by simp_all
  have tw: "takeWhile isdigit (ds' @ rest) = ds'"
  proof (cases rest)
    case Nil
    with ds' show ?thesis by simp
  next
    case (Cons r rs)
    with assms(3) have "\<not> isdigit r" by simp
    with Cons ds' show ?thesis by (simp add: takeWhile_append2)
  qed
  have lo: "\<not> int (dec_value (d # ds')) < INT_MIN" by (simp add: INT_MIN_def)
  show ?thesis
    using d isdigit_plain(3,4,5) [OF d] tw lo
    by (simp add: extract_int_def Let_def ds)
qed

lemma extract_int_no_digit:
  assumes "\<not> isdigit c" and "\<not> isspace c" and "c \<noteq> CHR ''-''" and "c \<noteq> CHR ''+''"
  shows "extract_int v0 (c # rest) = 0"
  using assms by (simp add: extract_int_def)

lemma extract_int_blank:
  assumes "\<forall>c \<in> set s. isspace c"
  shows "extract_int v0 s = v0"
proof -
  from assms have "dropWhile isspace s = []" by simp
  then show ?thesis by (simp add: extract_int_def)
qed

section \<open>Properties of the record store\<close>

subsection \<open>Open failures\<close>

text \<open>
  Claim C8. When the file cannot be opened in the mode an operation asks for,
  \<open>displayPlayers\<close>, \<open>addPlayer\<close> and \<open>updatePlayer\<close> each report the open failure and
  return at once: the file is as it was, and \<open>displayPlayers\<close> shows no player line.
\<close>

theorem open_failure_aborts:
  "(open_in m = None \<longrightarrow>
      displayPlayers u m = (m, Inl (CouldNotOpen Reading)) \<and> listed (displayPlayers u m) = [])
   \<and> (open_app m = None \<longrightarrow> addPlayer m name g = (m, Inl (CouldNotOpen Writing)))
   \<and> (open_inout m = None \<longrightarrow> updatePlayer u m name g = (m, Inl (CouldNotOpen Updating)))"
  by (simp add: displayPlayers_def addPlayer_def updatePlayer_def listed_def)

theorem open_failure_aborts_witness:
  "open_in \<lparr>bytes = Some ''Messi,12\<newline>'', readable = False, writable = False\<rparr> = None
   \<and> open_app \<lparr>bytes = Some ''Messi,12\<newline>'', readable = False, writable = False\<rparr> = None
   \<and> open_inout \<lparr>bytes = Some ''Messi,12\<newline>'', readable = False, writable = False\<rparr> = None
   \<and> displayPlayers zeroed \<lparr>bytes = Some ''Messi,12\<newline>'', readable = False, writable = False\<rparr>
       = (\<lparr>bytes = Some ''Messi,12\<newline>'', readable = False, writable = False\<rparr>,
          Inl (CouldNotOpen Reading))
   \<and> listed (displayPlayers zeroed
         \<lparr>bytes = Some ''Messi,12\<newline>'', readable = False, writable = False\<rparr>) = []
   \<and> addPlayer \<lparr>bytes = Some ''Messi,12\<newline>'', readable = False, writable = False\<rparr> ''Pele'' 7
       = (\<lparr>bytes = Some ''Messi,12\<newline>'', readable = False, writable = False\<rparr>,
          Inl (CouldNotOpen Writing))
   \<and> updatePlayer zeroed \<lparr>bytes = Some ''Messi,12\<newline>'', readable = False, writable = False\<rparr>
         ''Messi'' 7
       = (\<lparr>bytes = Some ''Messi,12\<newline>'', readable = False, writable = False\<rparr>,
          Inl (CouldNotOpen Updating))"
  using open_failure_aborts
    [of "\<lparr>bytes = Some ''Messi,12\<newline>'', readable = False, writable = False\<rparr>" zeroed "''Pele''" 7]
    open_failure_aborts
    [of "\<lparr>bytes = Some ''Messi,12\<newline>'', readable = False, writable = False\<rparr>" zeroed "''Messi''" 7]
  by (simp add: open_in_def open_app_def open_inout_def)

subsection \<open>The constructor\<close>

text \<open>
  Claim C5. \<open>ensureFileExists\<close>, run by the constructor, is idempotent. Constructing the
  store where no file exists (and one may be created) leaves a file that holds exactly the
  three seed records Messi,12 / Rapinoe,9 / Ronaldo,10; constructing it again, and
  constructing it on any file that can be read, changes nothing.
\<close>

theorem ensureFileExists_idempotent:
  "Soccer (Soccer m) = Soccer m
   \<and> (bytes m = None \<and> writable m \<longrightarrow>
        bytes (Soccer m) = Some seed \<and> bytes (Soccer (Soccer m)) = Some seed)
   \<and> (open_in m = Some b \<longrightarrow> Soccer m = m)
   \<and> read_records u 0 seed = [(''Messi'', 12), (''Rapinoe'', 9), (''Ronaldo'', 10)]"
proof -
  have "bytes m = None \<and> writable m \<longrightarrow> bytes (Soccer m) = Some seed"
    by (simp add: Soccer_def ensureFileExists_def open_in_def open_trunc_def)
  moreover have "Soccer (Soccer m) = Soccer m"
    by (simp add: Soccer_def ensureFileExists_twice)
  moreover have "open_in m = Some b \<longrightarrow> Soccer m = m"
    by (simp add: Soccer_def ensureFileExists_def)
  ultimately show ?thesis by (simp add: seed_records)
qed

theorem ensureFileExists_idempotent_witness:
  "bytes \<lparr>bytes = None, readable = True, writable = True\<rparr> = None
   \<and> writable \<lparr>bytes = None, readable = True, writable = True\<rparr>
   \<and> Soccer \<lparr>bytes = None, readable = True, writable = True\<rparr>
       = plain_file ''Messi,12\<newline>Rapinoe,9\<newline>Ronaldo,10\<newline>''
   \<and> open_in (plain_file ''Messi,12\<newline>Rapinoe,9\<newline>Ronaldo,10\<newline>'')
       = Some ''Messi,12\<newline>Rapinoe,9\<newline>Ronaldo,10\<newline>''
   \<and> Soccer (plain_file ''Messi,12\<newline>Rapinoe,9\<newline>Ronaldo,10\<newline>'')
       = plain_file ''Messi,12\<newline>Rapinoe,9\<newline>Ronaldo,10\<newline>''"
proof -
  let ?s = "''Messi,12\<newline>Rapinoe,9\<newline>Ronaldo,10\<newline>''"
  have o: "open_in (plain_file ?s) = Some ?s"
    by (simp add: open_in_def plain_file_def)
  have "Soccer \<lparr>bytes = None, readable = True, writable = True\<rparr> = plain_file ?s"
    using ensureFileExists_idempotent [of "\<lparr>bytes = None, readable = True, writable = True\<rparr>"]
    by (simp add: Soccer_def ensureFileExists_def open_in_def open_trunc_def plain_file_def seed_def)
  moreover have "Soccer (plain_file ?s) = plain_file ?s"
    using ensureFileExists_idempotent [of "plain_file ?s" ?s] o by simp
  ultimately show ?thesis using o by simp
qed

subsection \<open>Updating\<close>

text \<open>
  Claim C2, on the code: every record with the target name is set in the vector, but the
  rewrite does not shorten the file. In a file with the records Dup,1000000 and Dup,2,
  updating Dup to 5 goals writes two lines Dup,5 and leaves the old line Dup,2 behind them:
  the outcome is Updated, and the next listing shows three records named Dup, one of them
  still with 2 goals.
\<close>

theorem updatePlayer_stale_duplicate:
  "read_records u 0 ''Dup,1000000\<newline>Dup,2\<newline>'' = [(''Dup'', 1000000), (''Dup'', 2)]
   \<and> updatePlayer u (plain_file ''Dup,1000000\<newline>Dup,2\<newline>'') ''Dup'' 5
       = (plain_file ''Dup,5\<newline>Dup,5\<newline>Dup,2\<newline>'', Inr Updated)
   \<and> listed (displayPlayers v (plain_file ''Dup,5\<newline>Dup,5\<newline>Dup,2\<newline>''))
       = [(''Dup'', 5), (''Dup'', 5), (''Dup'', 2)]"
  by (simp add: updatePlayer_def modify_players_def plain_file_def open_inout_def
      displayPlayers_def listed_def open_in_def run_defs write_defs)

text \<open>
  Claim C9, on the code: the vector keeps the other records and their order, but the file
  does not. In a file with the records A,100 and B,7, updating A to 5 goals reports Updated
  and leaves the old bytes 7 and a line break behind the rewritten lines, which the next
  listing shows as a third record named 7. In a file with eight empty lines before A,1,
  inserting B with 2 goals leaves the old line A,1 behind the new record, so the inserted
  record is not the last one.
\<close>

theorem updatePlayer_stale_addition:
  "updatePlayer u (plain_file ''A,100\<newline>B,7\<newline>'') ''A'' 5
       = (plain_file ''A,5\<newline>B,7\<newline>7\<newline>'', Inr Updated)
   \<and> listed (displayPlayers v (plain_file ''A,5\<newline>B,7\<newline>7\<newline>''))
       = [(''A'', 5), (''B'', 7), (''7'', v 2)]
   \<and> updatePlayer u (plain_file ''\<newline>\<newline>\<newline>\<newline>\<newline>\<newline>\<newline>\<newline>A,1\<newline>'') ''B'' 2
       = (plain_file ''A,1\<newline>B,2\<newline>A,1\<newline>'', Inr Inserted)
   \<and> listed (displayPlayers v (plain_file ''A,1\<newline>B,2\<newline>A,1\<newline>''))
       = [(''A'', 1), (''B'', 2), (''A'', 1)]"
  by (simp add: updatePlayer_def modify_players_def plain_file_def open_inout_def
      displayPlayers_def listed_def open_in_def run_defs write_defs numeral_2_eq_2)

text \<open>
  Claim C4, amended. When no record read from the file has the target name,
  \<open>updatePlayer\<close> puts the record (name, newGoals) at the end of the sequence, reports
  Inserted and writes the sequence from the start of the file. When moreover the name has no
  comma and no line break, and the text written is at least as long as the old file, a later
  \<open>displayPlayers\<close> shows the records read before followed by the new record, which is
  the last one.
\<close>

theorem updatePlayer_inserts_last:
  assumes "open_inout m = Some old" and "name \<notin> fst ` set (read_records u 0 old)"
  shows "snd (updatePlayer u m name g) = Inr Inserted
   \<and> rewritten u old name g = read_records u 0 old @ [(name, g)]
   \<and> fst (updatePlayer u m name g)
       = m\<lparr>bytes := Some (overwrite (write_records (read_records u 0 old @ [(name, g)])) old)\<rparr>
   \<and> (comma \<notin> set name \<and> newline \<notin> set name
        \<and> length old \<le> length (write_records (read_records u 0 old @ [(name, g)])) \<longrightarrow>
        snd (displayPlayers v (fst (updatePlayer u m name g)))
          = Inr (read_records u 0 old @ [(name, g)]))"
proof -
  let ?ps = "read_records u 0 old"
  let ?new = "write_records (?ps @ [(name, g)])"
  have rw: "rewritten u old name g = ?ps @ [(name, g)]"
    using assms(2) by (simp add: rewritten_eq)
  have res: "snd (updatePlayer u m name g) = Inr Inserted"
    using assms(2) by (simp add: updatePlayer_opened [OF assms(1)] modify_players_eq)
  have st: "fst (updatePlayer u m name g) = m\<lparr>bytes := Some (overwrite ?new old)\<rparr>"
    by (simp add: updatePlayer_opened [OF assms(1)] rw)
  have rd: "readable m"
    using assms(1) by (auto simp: open_inout_def split: option.splits if_splits)
  have "snd (displayPlayers v (fst (updatePlayer u m name g))) = Inr (?ps @ [(name, g)])"
    if c: "comma \<notin> set name" and n: "newline \<notin> set name" and len: "length old \<le> length ?new"
  proof -
    have wf: "\<forall>p \<in> set (?ps @ [(name, g)]). comma \<notin> set (fst p) \<and> newline \<notin> set (fst p)"
      using c n read_records_names [of _ u 0 old] by auto
    have "open_in (m\<lparr>bytes := Some (overwrite ?new old)\<rparr>) = Some ?new"
      using rd by (simp add: open_in_def overwrite_covers [OF len])
    then show ?thesis
      by (simp add: st displayPlayers_def read_records_written_back [OF wf])
  qed
  with rw res st show ?thesis by blast
qed

theorem updatePlayer_inserts_last_witness:
  "open_inout (plain_file ''Messi,12\<newline>'') = Some ''Messi,12\<newline>''
   \<and> ''Alex Morgan'' \<notin> fst ` set (read_records zeroed 0 ''Messi,12\<newline>'')
   \<and> comma \<notin> set ''Alex Morgan'' \<and> newline \<notin> set ''Alex Morgan''
   \<and> length ''Messi,12\<newline>''
       \<le> length (write_records (read_records zeroed 0 ''Messi,12\<newline>'' @ [(''Alex Morgan'', 8)]))
   \<and> snd (updatePlayer zeroed (plain_file ''Messi,12\<newline>'') ''Alex Morgan'' 8) = Inr Inserted
   \<and> fst (updatePlayer zeroed (plain_file ''Messi,12\<newline>'') ''Alex Morgan'' 8)
       = plain_file ''Messi,12\<newline>Alex Morgan,8\<newline>''
   \<and> snd (displayPlayers zeroed
         (fst (updatePlayer zeroed (plain_file ''Messi,12\<newline>'') ''Alex Morgan'' 8)))
       = Inr [(''Messi'', 12), (''Alex Morgan'', 8)]"
proof -
  let ?old = "''Messi,12\<newline>''"
  have o: "open_inout (plain_file ?old) = Some ?old"
    by (simp add: plain_file_def open_inout_def)
  have r: "read_records zeroed 0 ?old = [(''Messi'', 12)]" by (simp add: run_defs)
  have a: "''Alex Morgan'' \<notin> fst ` set (read_records zeroed 0 ?old)"
    by (simp add: r)
  have c: "comma \<notin> set ''Alex Morgan''" and n: "newline \<notin> set ''Alex Morgan''"
    by (simp_all add: comma_def newline_def)
  have w: "write_records (read_records zeroed 0 ?old @ [(''Alex Morgan'', 8)])
      = ''Messi,12\<newline>Alex Morgan,8\<newline>''"
    by (simp add: r write_defs comma_def newline_def)
  have len: "length ?old \<le> length (write_records (read_records zeroed 0 ?old @ [(''Alex Morgan'', 8)]))"
    by (simp add: w)
  note t = updatePlayer_inserts_last [OF o a, of 8 zeroed]
  have t1: "snd (updatePlayer zeroed (plain_file ?old) ''Alex Morgan'' 8) = Inr Inserted"
    using t by blast
  have t2: "fst (updatePlayer zeroed (plain_file ?old) ''Alex Morgan'' 8)
      = plain_file ''Messi,12\<newline>Alex Morgan,8\<newline>''"
    using t by (simp add: w overwrite_def plain_file_def)
  have t3: "snd (displayPlayers zeroed
         (fst (updatePlayer zeroed (plain_file ?old) ''Alex Morgan'' 8)))
       = Inr [(''Messi'', 12), (''Alex Morgan'', 8)]"
  proof -
    from t have "comma \<notin> set ''Alex Morgan'' \<and> newline \<notin> set ''Alex Morgan''
        \<and> length ?old \<le> length (write_records (read_records zeroed 0 ?old @ [(''Alex Morgan'', 8)])) \<longrightarrow>
        snd (displayPlayers zeroed (fst (updatePlayer zeroed (plain_file ?old) ''Alex Morgan'' 8)))
          = Inr (read_records zeroed 0 ?old @ [(''Alex Morgan'', 8)])"
      by blast
    with c n len have "snd (displayPlayers zeroed (fst (updatePlayer zeroed (plain_file ?old) ''Alex Morgan'' 8)))
          = Inr (read_records zeroed 0 ?old @ [(''Alex Morgan'', 8)])"
      by blast
    then show ?thesis by (simp only: r append.simps)
  qed
  from o a c n len t1 t2 t3 show ?thesis by blast
qed

text \<open>
  Claim C4 as stated fails for a name with a comma: the file has no record named
  "Morgan, Alex", the update inserts it, and the next listing ends with a player named
  "Morgan" with 0 goals.
\<close>

theorem updatePlayer_insert_counterexample:
  "open_inout (plain_file ''Messi,12\<newline>'') = Some ''Messi,12\<newline>''
   \<and> ''Morgan, Alex'' \<notin> fst ` set (read_records zeroed 0 ''Messi,12\<newline>'')
   \<and> updatePlayer zeroed (plain_file ''Messi,12\<newline>'') ''Morgan, Alex'' 8
       = (plain_file ''Messi,12\<newline>Morgan, Alex,8\<newline>'', Inr Inserted)
   \<and> listed (displayPlayers zeroed (plain_file ''Messi,12\<newline>Morgan, Alex,8\<newline>''))
       = [(''Messi'', 12), (''Morgan'', 0)]
   \<and> last (listed (displayPlayers zeroed (plain_file ''Messi,12\<newline>Morgan, Alex,8\<newline>'')))
       \<noteq> (''Morgan, Alex'', 8)"
  by (simp add: updatePlayer_def modify_players_def plain_file_def open_inout_def
      displayPlayers_def listed_def open_in_def run_defs write_defs)

text \<open>
  Claim C1, on the code: the rewrite starts at offset 0 and ends where the last record ends,
  so the tail of a longer old file stays. Updating the only record Rapinoe,100 to 9 goals
  writes the line Rapinoe,9 and leaves the two old bytes after it: the file then has a
  second line, which \<open>displayPlayers\<close> shows as a player named 0.
\<close>

theorem updatePlayer_leaves_stale_bytes:
  "updatePlayer zeroed (plain_file ''Rapinoe,100\<newline>'') ''Rapinoe'' 9
     = (plain_file ''Rapinoe,9\<newline>0\<newline>'', Inr Updated)
   \<and> write_records (rewritten zeroed ''Rapinoe,100\<newline>'' ''Rapinoe'' 9) = ''Rapinoe,9\<newline>''
   \<and> listed (displayPlayers zeroed (plain_file ''Rapinoe,9\<newline>0\<newline>''))
       = [(''Rapinoe'', 9), (''0'', 0)]"
  by (simp add: updatePlayer_def rewritten_def modify_players_def plain_file_def open_inout_def
      displayPlayers_def listed_def open_in_def zeroed_def run_defs write_defs)

subsection \<open>Appending\<close>

text \<open>
  Claim C3, amended. Let the file exist, be readable and writable, and be empty or end with
  a line break. For every sequence of records whose names have no comma and no line break,
  after one \<open>addPlayer\<close> for each record in order, \<open>displayPlayers\<close> shows the records
  the file held before followed by the same records, in the same order, with the same names
  and goals; on an empty file it shows exactly these records.
\<close>

theorem append_list_roundtrip:
  assumes "open_in m = Some b" and "writable m" and "b = [] \<or> last b = newline"
    and "\<forall>p \<in> set ps. comma \<notin> set (fst p) \<and> newline \<notin> set (fst p)"
  shows "snd (displayPlayers u (addPlayers m ps)) = Inr (read_records u 0 b @ ps)
   \<and> (b = [] \<longrightarrow> snd (displayPlayers u (addPlayers m ps)) = Inr ps)"
proof -
  have "snd (displayPlayers u (addPlayers m ps)) = Inr (read_records u 0 b @ ps)"
    using displayPlayers_appended [OF assms(1,3,4), of u] addPlayers_opened [OF assms(1,2), of ps]
    by simp
  then show ?thesis by (auto simp: read_records_Nil)
qed

theorem append_list_roundtrip_witness:
  "open_in (plain_file []) = Some []
   \<and> writable (plain_file [])
   \<and> ([] = [] \<or> last [] = newline)
   \<and> comma \<notin> set ''Pele'' \<and> newline \<notin> set ''Pele''
   \<and> comma \<notin> set ''Marta'' \<and> newline \<notin> set ''Marta''
   \<and> bytes (addPlayers (plain_file []) [(''Pele'', 5), (''Marta'', - 1), (''Pele'', 6)])
       = Some ''Pele,5\<newline>Marta,-1\<newline>Pele,6\<newline>''
   \<and> snd (displayPlayers zeroed
         (addPlayers (plain_file []) [(''Pele'', 5), (''Marta'', - 1), (''Pele'', 6)]))
       = Inr [(''Pele'', 5), (''Marta'', - 1), (''Pele'', 6)]"
proof -
  have o: "open_in (plain_file []) = Some []" and w: "writable (plain_file [])"
    by (simp_all add: plain_file_def open_in_def)
  have n: "\<forall>p \<in> set [(''Pele'', 5 :: cint), (''Marta'', - 1), (''Pele'', 6)].
      comma \<notin> set (fst p) \<and> newline \<notin> set (fst p)"
    by (simp add: comma_def newline_def)
  have "snd (displayPlayers zeroed
         (addPlayers (plain_file []) [(''Pele'', 5), (''Marta'', - 1), (''Pele'', 6)]))
       = Inr [(''Pele'', 5), (''Marta'', - 1), (''Pele'', 6)]"
    using append_list_roundtrip [OF o w _ n, of zeroed] by blast
  moreover have "bytes (addPlayers (plain_file []) [(''Pele'', 5), (''Marta'', - 1), (''Pele'', 6)])
       = Some ''Pele,5\<newline>Marta,-1\<newline>Pele,6\<newline>''"
    by (simp add: plain_file_def open_app_def addPlayer_def write_defs comma_def newline_def)
  ultimately show ?thesis using o w by (simp add: comma_def newline_def)
qed

text \<open>
  Claim C3 as stated fails for a name with a comma: after \<open>addPlayer("Pele, Jr", 5)\<close> on
  an empty file the listing shows a player named "Pele" with 0 goals.
\<close>

theorem append_list_roundtrip_counterexample:
  "open_in (plain_file []) = Some []
   \<and> writable (plain_file [])
   \<and> snd (displayPlayers zeroed (addPlayers (plain_file []) [(''Pele, Jr'', 5)]))
       = Inr [(''Pele'', 0)]
   \<and> snd (displayPlayers zeroed (addPlayers (plain_file []) [(''Pele, Jr'', 5)]))
       \<noteq> Inr [(''Pele, Jr'', 5)]"
  by (simp add: plain_file_def open_in_def open_app_def addPlayer_def displayPlayers_def
      run_defs write_defs)

text \<open>
  Claim C10, amended. For every \<open>int\<close> goal count, negative ones included, and every name
  without comma and line break, \<open>addPlayer\<close> followed by \<open>displayPlayers\<close> (on a
  readable and writable file that is empty or ends with a line break) shows a last record
  with exactly that name and goal count: what \<open>operator<<\<close> writes for the number,
  \<open>operator>>\<close> reads back as the same number, and a negative number is written with a
  leading minus sign.
\<close>

theorem addPlayer_goals_roundtrip:
  assumes "open_in m = Some b" and "writable m" and "b = [] \<or> last b = newline"
    and "comma \<notin> set name" and "newline \<notin> set name"
  shows "snd (displayPlayers u (fst (addPlayer m name g))) = Inr (read_records u 0 b @ [(name, g)])
   \<and> extract_int v0 (show_int (sint g)) = g
   \<and> parse_line v0 (name @ comma # show_int (sint g)) = (name, g)
   \<and> (sint g < 0 \<longrightarrow> show_int (sint g) = CHR ''-'' # digits (nat (- sint g)))"
proof -
  have n: "\<forall>p \<in> set [(name, g)]. comma \<notin> set (fst p) \<and> newline \<notin> set (fst p)"
    using assms(4,5) by simp
  have "snd (displayPlayers u (fst (addPlayer m name g))) = Inr (read_records u 0 b @ [(name, g)])"
    using displayPlayers_appended [OF assms(1,3) n, of u] addPlayer_opened [OF assms(1,2), of name g]
    by simp
  moreover have "sint g < 0 \<longrightarrow> show_int (sint g) = CHR ''-'' # digits (nat (- sint g))"
    by (simp add: show_int_def)
  ultimately show ?thesis
    using assms(4) by (simp add: extract_int_show_int parse_line_written)
qed

theorem addPlayer_goals_roundtrip_witness:
  "open_in (plain_file ''Messi,12\<newline>'') = Some ''Messi,12\<newline>''
   \<and> writable (plain_file ''Messi,12\<newline>'')
   \<and> last ''Messi,12\<newline>'' = newline
   \<and> comma \<notin> set ''Marta'' \<and> newline \<notin> set ''Marta''
   \<and> sint (- 2147483648 :: cint) < 0
   \<and> show_int (sint (- 2147483648 :: cint)) = ''-2147483648''
   \<and> fst (addPlayer (plain_file ''Messi,12\<newline>'') ''Marta'' (- 2147483648))
       = plain_file ''Messi,12\<newline>Marta,-2147483648\<newline>''
   \<and> snd (displayPlayers zeroed (fst (addPlayer (plain_file ''Messi,12\<newline>'') ''Marta'' (- 2147483648))))
       = Inr [(''Messi'', 12), (''Marta'', - 2147483648)]"
proof -
  let ?b = "''Messi,12\<newline>''"
  have o: "open_in (plain_file ?b) = Some ?b" and w: "writable (plain_file ?b)"
    by (simp_all add: plain_file_def open_in_def)
  have l: "?b = [] \<or> last ?b = newline" by (simp add: newline_def)
  have c: "comma \<notin> set ''Marta''" and n: "newline \<notin> set ''Marta''"
    by (simp_all add: comma_def newline_def)
  have r: "read_records zeroed 0 ?b = [(''Messi'', 12)]" by (simp add: run_defs)
  have s: "sint (- 2147483648 :: cint) < 0" by simp
  have d2: "show_int (- 2147483648) = ''-2147483648''"
    by (simp add: write_defs)
  then have d: "show_int (sint (- 2147483648 :: cint)) = ''-2147483648''"
    by simp
  have a: "fst (addPlayer (plain_file ?b) ''Marta'' (- 2147483648))
       = plain_file ''Messi,12\<newline>Marta,-2147483648\<newline>''"
    by (simp add: addPlayer_def open_app_def plain_file_def write_record_def d2 comma_def newline_def)
  have "snd (displayPlayers zeroed (fst (addPlayer (plain_file ?b) ''Marta'' (- 2147483648))))
       = Inr [(''Messi'', 12), (''Marta'', - 2147483648)]"
    using addPlayer_goals_roundtrip [OF o w l c n, of zeroed "- 2147483648" 0] r by simp
  with o w l c n s d a show ?thesis by simp
qed

text \<open>
  Claim C10 as stated fails for a name with a comma: after
  \<open>addPlayer("Silva, Marta", -3)\<close> on an empty file the only record shown has 0 goals.
\<close>

theorem addPlayer_goals_counterexample:
  "fst (addPlayer (plain_file []) ''Silva, Marta'' (- 3)) = plain_file ''Silva, Marta,-3\<newline>''
   \<and> snd (displayPlayers zeroed (fst (addPlayer (plain_file []) ''Silva, Marta'' (- 3))))
       = Inr [(''Silva'', 0)]
   \<and> - 3 \<noteq> (0 :: cint)"
  by (simp add: plain_file_def open_in_def open_app_def addPlayer_def displayPlayers_def
      run_defs write_defs)

subsection \<open>Reading\<close>

text \<open>
  Claim C6, amended. \<open>displayPlayers\<close> reads the file line by line in file order and
  skips exactly the lines that have no character at all; nothing is trimmed. Every other
  line, a line of white space included, gives one record, so the records shown are the
  parsed non-empty lines in file order, as many as there are non-empty lines, and their
  names are the texts before the first comma of these lines.
\<close>

theorem displayPlayers_skips_empty_lines:
  assumes "open_in m = Some b"
  shows "snd (displayPlayers u m)
       = Inr (map (\<lambda>(j, l). parse_line (u j) l)
               (filter (\<lambda>(j, l). l \<noteq> []) (enumerate 0 (file_lines b))))
   \<and> length (listed (displayPlayers u m)) = length (filter (\<lambda>l. l \<noteq> []) (file_lines b))
   \<and> map fst (listed (displayPlayers u m))
       = map (takeWhile (\<lambda>c. c \<noteq> comma)) (filter (\<lambda>l. l \<noteq> []) (file_lines b))"
  using assms
  by (simp add: displayPlayers_def listed_def read_records_length read_records_fst
      read_records_file_lines [symmetric])

theorem displayPlayers_skips_empty_lines_witness:
  "open_in (plain_file ''Messi,12\<newline>\<newline>\<newline>Rapinoe,9\<newline>'')
       = Some ''Messi,12\<newline>\<newline>\<newline>Rapinoe,9\<newline>''
   \<and> file_lines ''Messi,12\<newline>\<newline>\<newline>Rapinoe,9\<newline>'' = [''Messi,12'', [], [], ''Rapinoe,9'']
   \<and> snd (displayPlayers zeroed (plain_file ''Messi,12\<newline>\<newline>\<newline>Rapinoe,9\<newline>''))
       = Inr [(''Messi'', 12), (''Rapinoe'', 9)]"
proof -
  let ?b = "''Messi,12\<newline>\<newline>\<newline>Rapinoe,9\<newline>''"
  have o: "open_in (plain_file ?b) = Some ?b"
    by (simp add: plain_file_def open_in_def)
  have f: "file_lines ?b = [''Messi,12'', [], [], ''Rapinoe,9'']"
    by (simp add: file_lines_def newline_def)
  have e: "enumerate 0 [''Messi,12'', [], [], ''Rapinoe,9'']
      = [(0, ''Messi,12''), (1, []), (2, []), (3, ''Rapinoe,9'')]"
    by (simp add: enumerate_eq_zip upt_rec)
  have "snd (displayPlayers zeroed (plain_file ?b)) = Inr [(''Messi'', 12), (''Rapinoe'', 9)]"
    using displayPlayers_skips_empty_lines [OF o, of zeroed]
    by (simp add: f e parse_line_def extract_int_def isspace_def isdigit_def dec_value_def
        digit_val_def comma_def INT_MAX_def INT_MIN_def)
  with o f show ?thesis by simp
qed

text \<open>
  Claim C6 as stated fails for a line that holds one space: it is not skipped, and the
  listing has a record for it, named by the space.
\<close>

theorem displayPlayers_whitespace_line_counterexample:
  "file_lines ''Messi,12\<newline> \<newline>Rapinoe,9\<newline>'' = [''Messi,12'', '' '', ''Rapinoe,9'']
   \<and> isspace (CHR '' '')
   \<and> snd (displayPlayers zeroed (plain_file ''Messi,12\<newline> \<newline>Rapinoe,9\<newline>''))
       = Inr [(''Messi'', 12), ('' '', 0), (''Rapinoe'', 9)]
   \<and> snd (displayPlayers zeroed (plain_file ''Messi,12\<newline> \<newline>Rapinoe,9\<newline>''))
       \<noteq> Inr [(''Messi'', 12), (''Rapinoe'', 9)]"
  by (simp add: file_lines_def displayPlayers_def plain_file_def open_in_def zeroed_def run_defs)

text \<open>
  Claim C7. For a non-empty line the parser of both reading loops takes as name
  everything before the first comma, or the whole line when there is no comma. When the rest
  starts with decimal digits that are not followed by another digit, the goal count is the
  number these digits denote (if it fits an \<open>int\<close>), whatever follows them. When the number
  cannot be read the result is still a record: the goal count is the largest \<open>int\<close> when
  the digits denote a larger number, it is 0 when the rest starts with a character that is no
  digit, sign or white space, and it is the value the uninitialised variable held when there
  is no comma or nothing but white space after it.
\<close>

theorem parse_line_contract:
  "(line \<noteq> [] \<longrightarrow>
      fst (parse_line v line) = takeWhile (\<lambda>c. c \<noteq> comma) line
      \<and> (comma \<notin> set line \<longrightarrow> parse_line v line = (line, v)))
   \<and> (comma \<notin> set name \<and> ds \<noteq> [] \<and> (\<forall>c \<in> set ds. isdigit c)
        \<and> (rest = [] \<or> \<not> isdigit (hd rest)) \<and> int (dec_value ds) \<le> INT_MAX \<longrightarrow>
      parse_line v (name @ comma # ds @ rest) = (name, word_of_int (int (dec_value ds)))
      \<and> sint (snd (parse_line v (name @ comma # ds @ rest))) = int (dec_value ds))
   \<and> (comma \<notin> set name \<and> ds \<noteq> [] \<and> (\<forall>c \<in> set ds. isdigit c)
        \<and> (rest = [] \<or> \<not> isdigit (hd rest)) \<and> INT_MAX < int (dec_value ds) \<longrightarrow>
      parse_line v (name @ comma # ds @ rest) = (name, word_of_int INT_MAX))
   \<and> (comma \<notin> set name \<and> \<not> isdigit c \<and> \<not> isspace c \<and> c \<noteq> CHR ''-'' \<and> c \<noteq> CHR ''+'' \<longrightarrow>
      parse_line v (name @ comma # c # rest) = (name, 0))
   \<and> (comma \<notin> set name \<and> (\<forall>c \<in> set blank. isspace c) \<longrightarrow>
      parse_line v (name @ comma # blank) = (name, v))"
proof -
  have a: "fst (parse_line v line) = takeWhile (\<lambda>c. c \<noteq> comma) line"
    by (rule parse_line_fst)
  have b: "parse_line v line = (line, v)" if "line \<noteq> []" and "comma \<notin> set line"
    using getline_no_delim [OF that(2,1)] by (simp add: parse_line_def extract_int_def)
  have c: "parse_line v (name @ comma # ds @ rest) = (name, word_of_int (int (dec_value ds)))
      \<and> sint (snd (parse_line v (name @ comma # ds @ rest))) = int (dec_value ds)"
    if "comma \<notin> set name" and "ds \<noteq> []" and "\<forall>c \<in> set ds. isdigit c"
      and "rest = [] \<or> \<not> isdigit (hd rest)" and "int (dec_value ds) \<le> INT_MAX"
    using that
    by (simp add: parse_line_def getline_append extract_int_leading_digits sint_word_of_nat_small)
  have c': "parse_line v (name @ comma # ds @ rest) = (name, word_of_int INT_MAX)"
    if "comma \<notin> set name" and "ds \<noteq> []" and "\<forall>c \<in> set ds. isdigit c"
      and "rest = [] \<or> \<not> isdigit (hd rest)" and "INT_MAX < int (dec_value ds)"
    using that
    by (simp add: parse_line_def getline_append extract_int_leading_digits)
  have d: "parse_line v (name @ comma # c # rest) = (name, 0)"
    if "comma \<notin> set name" and "\<not> isdigit c" and "\<not> isspace c" and "c \<noteq> CHR ''-''" and "c \<noteq> CHR ''+''"
    using that by (simp add: parse_line_def getline_append extract_int_no_digit)
  have e: "parse_line v (name @ comma # blank) = (name, v)"
    if "comma \<notin> set name" and "\<forall>c \<in> set blank. isspace c"
    using that by (simp add: parse_line_def getline_append extract_int_blank)
  from a b c c' d e show ?thesis by blast
qed

theorem parse_line_contract_witness:
  "''Messi,12 goals'' \<noteq> []
   \<and> comma \<notin> set ''Messi'' \<and> ''12'' \<noteq> [] \<and> isdigit (CHR ''1'') \<and> isdigit (CHR ''2'')
   \<and> \<not> isdigit (hd '' goals'') \<and> int (dec_value ''12'') \<le> INT_MAX
   \<and> parse_line 77 ''Messi,12 goals'' = (''Messi'', 12)
   \<and> comma \<notin> set ''Rapinoe'' \<and> parse_line 77 ''Rapinoe'' = (''Rapinoe'', 77)
   \<and> \<not> isdigit (CHR ''n'') \<and> \<not> isspace (CHR ''n'') \<and> parse_line 77 ''Ronaldo,none'' = (''Ronaldo'', 0)
   \<and> isspace (CHR '' '') \<and> parse_line 77 ''Marta, '' = (''Marta'', 77)
   \<and> INT_MAX < int (dec_value ''99999999999'')
   \<and> parse_line 77 ''Pele,99999999999'' = (''Pele'', 2147483647)"
proof -
  have h1: "comma \<notin> set ''Messi'' \<and> ''12'' \<noteq> [] \<and> (\<forall>c \<in> set ''12''. isdigit c)
      \<and> ('' goals'' = [] \<or> \<not> isdigit (hd '' goals'')) \<and> int (dec_value ''12'') \<le> INT_MAX"
    by (simp add: comma_def isdigit_def dec_value_def digit_val_def INT_MAX_def)
  have v: "word_of_int (int (dec_value ''12'')) = (12 :: cint)"
    by (simp add: dec_value_def digit_val_def)
  have p1: "parse_line 77 ''Messi,12 goals'' = (''Messi'', 12)"
    using parse_line_contract [where v = 77 and name = "''Messi''" and ds = "''12''" and rest = "'' goals''"] h1 v
    by (simp add: comma_def)
  have h2: "''Rapinoe'' \<noteq> [] \<and> comma \<notin> set ''Rapinoe''" by (simp add: comma_def)
  have p2: "parse_line 77 ''Rapinoe'' = (''Rapinoe'', 77)"
    using parse_line_contract [where line = "''Rapinoe''" and v = 77] h2 by blast
  have h3: "comma \<notin> set ''Ronaldo'' \<and> \<not> isdigit (CHR ''n'') \<and> \<not> isspace (CHR ''n'')
      \<and> CHR ''n'' \<noteq> CHR ''-'' \<and> CHR ''n'' \<noteq> CHR ''+''"
    by (simp add: comma_def isdigit_def isspace_def)
  have p3: "parse_line 77 ''Ronaldo,none'' = (''Ronaldo'', 0)"
    using parse_line_contract [where v = 77 and name = "''Ronaldo''" and c = "CHR ''n''" and rest = "''one''"] h3
    by (simp add: comma_def)
  have h4: "comma \<notin> set ''Marta'' \<and> (\<forall>c \<in> set '' ''. isspace c)"
    by (simp add: comma_def isspace_def)
  have p4: "parse_line 77 ''Marta, '' = (''Marta'', 77)"
    using parse_line_contract [where v = 77 and name = "''Marta''" and blank = "'' ''"] h4
    by (simp add: comma_def)
  have h5: "comma \<notin> set ''Pele'' \<and> ''99999999999'' \<noteq> []
      \<and> (\<forall>c \<in> set ''99999999999''. isdigit c)
      \<and> ([] = [] \<or> \<not> isdigit (hd [])) \<and> INT_MAX < int (dec_value ''99999999999'')"
    by (simp add: comma_def isdigit_def dec_value_def digit_val_def INT_MAX_def)
  have p5: "parse_line 77 ''Pele,99999999999'' = (''Pele'', 2147483647)"
    using parse_line_contract
      [where v = 77 and name = "''Pele''" and ds = "''99999999999''" and rest = "[]"] h5
    by (simp add: comma_def INT_MAX_def)
  from h1 h2 h3 h4 h5 p1 p2 p3 p4 p5 show ?thesis by simp
qed

end
